theory Spec2Isabelle
  imports Main
begin

section \<open>Values, nodes and the program state of linked\_list.py\<close>

text \<open>
  A reference to a \<open>Node\<close> object is an address. Python references never dangle, so the
  node store is a total function from addresses to nodes; \<open>None\<close> in a reference field
  is \<open>None\<close> of the option type.
\<close>

type_synonym addr = nat

text \<open>
  The values a node's \<open>data\<close> holds. The list never inspects \<open>data\<close>; it only passes it
  to \<open>str\<close>.
\<close>

datatype pyval = PyNone | PyBool bool | PyInt int | PyStr string

text \<open>The one exception the code can raise on these values.\<close>

datatype error = ValueError

text \<open>\<open>class Node\<close>: the two attributes \<open>__init__\<close> assigns.\<close>

record Node =
  data :: pyval
  next_node :: "addr option"

text \<open>\<open>class LinkedList\<close>: the two attributes \<open>__init__\<close> assigns.\<close>

record LinkedList =
  head :: "addr option"
  last_node :: "addr option"

text \<open>
  The state the module runs in: the list object bound to the module variable \<open>ll\<close>,
  the store of \<open>Node\<close> objects, and standard output as the list of lines written to it
  (one entry for each call of \<open>print\<close>, without the line terminator \<open>print\<close> adds).
\<close>

record pystate =
  ll :: LinkedList
  nodes :: "addr \<Rightarrow> Node"
  stdout :: "string list"

text \<open>
  How a call ends: \<open>Inr (value, state)\<close> when it returns, \<open>Inl (error, state)\<close> when it
  raises, each with the state it leaves.
\<close>

type_synonym outcome = "(error \<times> pystate) + (pyval \<times> pystate)"

section \<open>\<open>str\<close>\<close>

definition digit :: "nat \<Rightarrow> char" where
  "digit d = ''0123456789'' ! d"

fun str_nat :: "nat \<Rightarrow> string" where
  "str_nat n = (if n < 10 then [digit n] else str_nat (n div 10) @ [digit (n mod 10)])"

declare str_nat.simps [simp del]

text \<open>
  CPython's limit on the conversion of an \<open>int\<close> to a decimal string
  (\<open>sys.int_max_str_digits\<close>), at its default.
\<close>

definition int_max_str_digits :: nat where
  "int_max_str_digits = 4300"

text \<open>
  Python's \<open>str\<close> on the values of \<open>pyval\<close>. On an \<open>int\<close> with more decimal digits than
  the limit, the sign not counted, it raises \<open>ValueError\<close>.
\<close>

fun py_str :: "pyval \<Rightarrow> error + string" where
  "py_str PyNone = Inr ''None''"
| "py_str (PyBool b) = Inr (if b then ''True'' else ''False'')"
| "py_str (PyInt i) =
     (let ds = str_nat (nat \<bar>i\<bar>)
      in if int_max_str_digits < length ds then Inl ValueError
         else Inr (if i < 0 then ''-'' @ ds else ds))"
| "py_str (PyStr s) = Inr s"

text \<open>
  \<open>print(x)\<close> for an \<open>x\<close> that is \<open>None\<close> or a string, given as the string \<open>str(x)\<close>: one
  more line on standard output.
\<close>

definition py_print :: "string \<Rightarrow> pystate \<Rightarrow> pystate" where
  "py_print line s = s\<lparr>stdout := stdout s @ [line]\<rparr>"

section \<open>The constructors\<close>

text \<open>
  \<open>Node.__init__(self, data=None, next_node=None)\<close>: an argument left out is \<open>None\<close> of
  the option type here, and takes the default of the source.
\<close>

definition Node_init :: "pyval option \<Rightarrow> addr option option \<Rightarrow> Node" where
  "Node_init d n =
     \<lparr>data = (case d of None \<Rightarrow> PyNone | Some v \<Rightarrow> v),
      next_node = (case n of None \<Rightarrow> None | Some p \<Rightarrow> p)\<rparr>"

text \<open>
  \<open>LinkedList.__init__(self)\<close>: assigns both attributes of the list object and returns
  \<open>None\<close>. An operation's result is \<open>Some (value, state)\<close> when it returns, with no
  value of the option type left for an exception: the body raises none.
\<close>

definition LinkedList_init :: "pystate \<Rightarrow> (pyval \<times> pystate) option" where
  "LinkedList_init s = Some (PyNone, s\<lparr>ll := \<lparr>head = None, last_node = None\<rparr>\<rparr>)"

section \<open>\<open>print_LL\<close>\<close>

text \<open>
  The \<open>while node:\<close> loop. A \<open>Node\<close> object defines neither \<open>__bool__\<close> nor \<open>__len__\<close>,
  so it is true, and the loop runs until \<open>node\<close> is \<open>None\<close>. When \<open>str(node.data)\<close>
  raises, the loop ends with the exception. On a chain that never reaches \<open>None\<close> and
  never raises, the loop does not return: the value is \<open>None\<close> of the option type.
\<close>

partial_function (option) while_loop ::
  "(addr \<Rightarrow> Node) \<Rightarrow> addr option \<Rightarrow> string \<Rightarrow> (error + string) option" where
  "while_loop h node ll_string =
     (case node of
        None \<Rightarrow> Some (Inr ll_string)
      | Some a \<Rightarrow>
          (case py_str (data (h a)) of
             Inl e \<Rightarrow> Some (Inl e)
           | Inr t \<Rightarrow> while_loop h (next_node (h a)) (ll_string @ t @ '' => '')))"

text \<open>
  \<open>print_LL(self)\<close>: prints \<open>None\<close> when the head is \<open>None\<close>, runs the loop from the
  head with the empty string, appends \<open>"None"\<close>, prints the string, and returns \<open>None\<close>.
  An exception of the loop leaves \<open>print_LL\<close> before the last two statements.
\<close>

definition print_LL :: "pystate \<Rightarrow> outcome option" where
  "print_LL s =
     (let node = head (ll s);
          s1 = (if node = None then py_print ''None'' s else s)
      in case while_loop (nodes s) node '''' of
           None \<Rightarrow> None
         | Some (Inl e) \<Rightarrow> Some (Inl (e, s1))
         | Some (Inr ll_string) \<Rightarrow> Some (Inr (PyNone, py_print (ll_string @ ''None'') s1)))"

text \<open>
  The same loop with a bound on the number of times its body runs: \<open>None\<close> when the
  loop has not ended after \<open>n\<close> executions of the body.
\<close>

fun while_fuel :: "nat \<Rightarrow> (addr \<Rightarrow> Node) \<Rightarrow> addr option \<Rightarrow> string \<Rightarrow> (error + string) option" where
  "while_fuel n h None ll_string = Some (Inr ll_string)"
| "while_fuel 0 h (Some a) ll_string = None"
| "while_fuel (Suc n) h (Some a) ll_string =
     (case py_str (data (h a)) of
        Inl e \<Rightarrow> Some (Inl e)
      | Inr t \<Rightarrow> while_fuel n h (next_node (h a)) (ll_string @ t @ '' => ''))"

section \<open>The module's statements\<close>

text \<open>
  Lines 36 to 42: \<open>ll = LinkedList()\<close>, the two nodes (\<open>node2\<close> at address 2, \<open>node1\<close> at
  address 1), \<open>ll.head = node1\<close> and \<open>ll.print_LL()\<close>, run from a state \<open>s\<close>.
\<close>

definition module_main :: "pystate \<Rightarrow> outcome option" where
  "module_main s =
     (case LinkedList_init s of
        None \<Rightarrow> None
      | Some (_, s1) \<Rightarrow>
          (let s2 = s1\<lparr>nodes := (nodes s1)(2 := Node_init (Some (PyStr ''2'')) (Some None))\<rparr>;
               s3 = s2\<lparr>nodes := (nodes s2)(1 := Node_init (Some (PyStr ''fir'')) (Some (Some 2)))\<rparr>;
               s4 = s3\<lparr>ll := (ll s3)\<lparr>head := Some 1\<rparr>\<rparr>
           in print_LL s4))"

section \<open>Chains\<close>

text \<open>
  \<open>chain h p as\<close>: following \<open>next_node\<close> from the reference \<open>p\<close> visits the nodes at
  the addresses \<open>as\<close>, in this order, and then reaches \<open>None\<close>. A reference has such a
  list exactly when its chain is finite, and then the chain has no cycle.
\<close>

fun chain :: "(addr \<Rightarrow> Node) \<Rightarrow> addr option \<Rightarrow> addr list \<Rightarrow> bool" where
  "chain h p [] = (p = None)"
| "chain h p (a # as) = (p = Some a \<and> chain h (next_node (h a)) as)"

text \<open>
  The string forms \<open>str(e1), ..., str(en)\<close> of the data of the nodes at the addresses
  \<open>as\<close>, or the exception of the first datum whose \<open>str\<close> raises.
\<close>

fun tokens :: "(addr \<Rightarrow> Node) \<Rightarrow> addr list \<Rightarrow> error + string list" where
  "tokens h [] = Inr []"
| "tokens h (a # as) =
     (case py_str (data (h a)) of
        Inl e \<Rightarrow> Inl e
      | Inr t \<Rightarrow> (case tokens h as of Inl e \<Rightarrow> Inl e | Inr ts \<Rightarrow> Inr (t # ts)))"

text \<open>
  The rendering as the specification writes it, for the string forms of the elements
  \<open>e1, ..., en\<close>: \<open>str(e1) + " => " + ... + str(en) + " => " + "None"\<close>.
\<close>

fun rendered :: "string list \<Rightarrow> string" where
  "rendered [] = ''None''"
| "rendered (t # ts) = t @ '' => '' @ rendered ts"

section \<open>Reachable states\<close>

text \<open>
  The states the source's statements lead to: \<open>LinkedList()\<close> run in any state, then
  any number of \<open>Node(...)\<close> constructions stored at an address, assignments to
  \<open>ll.head\<close> (line 41) and calls of \<open>print_LL\<close> that return or raise.
\<close>

inductive reachable :: "pystate \<Rightarrow> bool" where
  construct: "LinkedList_init s = Some (r, s') \<Longrightarrow> reachable s'"
| new_node: "reachable s \<Longrightarrow> reachable (s\<lparr>nodes := (nodes s)(a := Node_init d n)\<rparr>)"
| set_head: "reachable s \<Longrightarrow> reachable (s\<lparr>ll := (ll s)\<lparr>head := p\<rparr>\<rparr>)"
| render: "reachable s \<Longrightarrow> print_LL s = Some (Inr (r, s')) \<Longrightarrow> reachable s'"
| render_raises: "reachable s \<Longrightarrow> print_LL s = Some (Inl (e, s')) \<Longrightarrow> reachable s'"

section \<open>States used as examples\<close>

text \<open>A store in which every address holds \<open>Node()\<close>.\<close>

definition blank_nodes :: "addr \<Rightarrow> Node" where
  "blank_nodes = (\<lambda>_. Node_init None None)"

text \<open>A list of three nodes holding \<open>7\<close>, \<open>True\<close> and \<open>"c"\<close>, at the addresses 5, 3 and 9.\<close>

definition three_state :: pystate where
  "three_state =
     \<lparr>ll = \<lparr>head = Some 5, last_node = None\<rparr>,
      nodes = blank_nodes
        (5 := Node_init (Some (PyInt 7)) (Some (Some 3)),
         3 := Node_init (Some (PyBool True)) (Some (Some 9)),
         9 := Node_init (Some (PyStr ''c'')) (Some None)),
      stdout = [''earlier'']\<rparr>"

text \<open>The empty list, with one line already on standard output.\<close>

definition empty_state :: pystate where
  "empty_state = \<lparr>ll = \<lparr>head = None, last_node = None\<rparr>, nodes = blank_nodes, stdout = [''earlier'']\<rparr>"

text \<open>A list of the one node \<open>Node("x")\<close> at address 4.\<close>

definition one_state :: pystate where
  "one_state =
     \<lparr>ll = \<lparr>head = Some 4, last_node = None\<rparr>,
      nodes = blank_nodes(4 := Node_init (Some (PyStr ''x'')) None),
      stdout = []\<rparr>"

text \<open>A list whose only node, at address 1, is its own successor.\<close>

definition cyclic_state :: pystate where
  "cyclic_state =
     \<lparr>ll = \<lparr>head = Some 1, last_node = None\<rparr>,
      nodes = blank_nodes(1 := Node_init (Some (PyStr ''a'')) (Some (Some 1))),
      stdout = []\<rparr>"

text \<open>The \<open>int\<close> \<open>10**4300\<close>, of 4301 decimal digits.\<close>

definition big_int :: int where
  "big_int = 10 ^ 4300"

text \<open>A list of the one node \<open>Node(10**4300)\<close> at address 1.\<close>

definition big_one_state :: pystate where
  "big_one_state =
     \<lparr>ll = \<lparr>head = Some 1, last_node = None\<rparr>,
      nodes = blank_nodes(1 := Node_init (Some (PyInt big_int)) None),
      stdout = [''earlier'']\<rparr>"

text \<open>A list of two nodes holding \<open>"p"\<close> and \<open>10**4300\<close>, at the addresses 2 and 6.\<close>

definition late_big_state :: pystate where
  "late_big_state =
     \<lparr>ll = \<lparr>head = Some 2, last_node = None\<rparr>,
      nodes = blank_nodes
        (2 := Node_init (Some (PyStr ''p'')) (Some (Some 6)),
         6 := Node_init (Some (PyInt big_int)) (Some None)),
      stdout = []\<rparr>"

text \<open>A list of two nodes holding \<open>10**4300\<close> and \<open>"z"\<close>, at the addresses 1 and 2.\<close>

definition early_big_state :: pystate where
  "early_big_state =
     \<lparr>ll = \<lparr>head = Some 1, last_node = None\<rparr>,
      nodes = blank_nodes
        (1 := Node_init (Some (PyInt big_int)) (Some (Some 2)),
         2 := Node_init (Some (PyStr ''z'')) (Some None)),
      stdout = []\<rparr>"

section \<open>\<open>str\<close> on integers\<close>

lemma str_nat_nonempty: "0 < length (str_nat n)"
  by (subst str_nat.simps) simp

lemma str_nat_length: "10 ^ k \<le> n \<Longrightarrow> k < length (str_nat n)"
proof (induction k arbitrary: n)
  case 0
  show ?case by (rule str_nat_nonempty)
next
  case (Suc k)
  from Suc.prems have le: "10 * 10 ^ k \<le> n" by simp
  have "(1::nat) \<le> 10 ^ k" by simp
  with le have big: "\<not> n < 10" by linarith
  from le have "10 ^ k \<le> n div 10" by linarith
  then have "k < length (str_nat (n div 10))" by (rule Suc.IH)
  moreover have "str_nat n = str_nat (n div 10) @ [digit (n mod 10)]"
    using big by (subst str_nat.simps) simp
  ultimately show ?case by simp
qed

lemma py_str_big_int: "py_str (PyInt big_int) = Inl ValueError"
proof -
  have "nat \<bar>big_int\<bar> = 10 ^ 4300"
    unfolding big_int_def by (simp only: power_abs abs_numeral nat_power_eq abs_ge_zero nat_numeral)
  moreover have "4300 < length (str_nat (10 ^ 4300))"
    by (rule str_nat_length) (rule order_refl)
  ultimately have "4300 < length (str_nat (nat \<bar>big_int\<bar>))" by (simp only:)
  then show ?thesis by (simp add: Let_def int_max_str_digits_def)
qed

section \<open>The loop\<close>

lemma while_loop_None: "while_loop h None acc = Some (Inr acc)"
  by (subst while_loop.simps) simp

lemma while_loop_Some:
  "while_loop h (Some a) acc =
     (case py_str (data (h a)) of
        Inl e \<Rightarrow> Some (Inl e)
      | Inr t \<Rightarrow> while_loop h (next_node (h a)) (acc @ t @ '' => ''))"
  by (subst while_loop.simps) simp

text \<open>What the loop appends for the string forms \<open>ts\<close>.\<close>

lemma rendered_concat: "rendered ts = concat (map (\<lambda>t. t @ '' => '') ts) @ ''None''"
  by (induction ts) simp_all

text \<open>On a finite chain the loop ends: with the first exception of \<open>str\<close>, or with the tokens.\<close>

lemma chain_while_loop:
  "chain h p as \<Longrightarrow>
   while_loop h p acc =
     Some (case tokens h as of
             Inl e \<Rightarrow> Inl e
           | Inr ts \<Rightarrow> Inr (acc @ concat (map (\<lambda>t. t @ '' => '') ts)))"
proof (induction as arbitrary: p acc)
  case Nil
  then show ?case by (simp add: while_loop_None)
next
  case (Cons a as)
  then show ?case by (simp add: while_loop_Some split: sum.splits)
qed

lemma chain_while_fuel:
  "chain h p as \<Longrightarrow>
   while_fuel (length as) h p acc =
     Some (case tokens h as of
             Inl e \<Rightarrow> Inl e
           | Inr ts \<Rightarrow> Inr (acc @ concat (map (\<lambda>t. t @ '' => '') ts)))"
proof (induction as arbitrary: p acc)
  case Nil
  then show ?case by simp
next
  case (Cons a as)
  then show ?case by (simp split: sum.splits)
qed

lemma chain_while_fuel_less:
  "chain h p as \<Longrightarrow> tokens h as = Inr ts \<Longrightarrow> k < length as \<Longrightarrow> while_fuel k h p acc = None"
proof (induction as arbitrary: p acc k ts)
  case Nil
  then show ?case by simp
next
  case (Cons a as)
  show ?case
  proof (cases k)
    case 0
    with Cons.prems show ?thesis by simp
  next
    case (Suc j)
    from Cons.prems(2) obtain t us where t: "py_str (data (h a)) = Inr t" and us: "tokens h as = Inr us"
      by (auto split: sum.splits)
    from Cons.prems(1) have p: "p = Some a" and rest: "chain h (next_node (h a)) as" by simp_all
    from Cons.prems(3) Suc have "j < length as" by simp
    from Cons.IH [OF rest us this] show ?thesis by (simp add: Suc p t)
  qed
qed

text \<open>The bounded loop ends only as the loop ends.\<close>

lemma while_fuel_while_loop:
  "while_fuel n h p acc = Some r \<Longrightarrow> while_loop h p acc = Some r"
  by (induction n h p acc rule: while_fuel.induct)
     (auto simp: while_loop_None while_loop_Some split: sum.splits)

text \<open>A loop that returns has walked a chain to \<open>None\<close>.\<close>

lemma while_loop_chain:
  assumes "while_loop h p acc = Some r"
  shows "(\<exists>out. r = Inr out) \<longrightarrow> (\<exists>as. chain h p as)"
proof (rule while_loop.raw_induct
    [where P = "\<lambda>h p acc r. (\<exists>out. r = Inr out) \<longrightarrow> (\<exists>as. chain h p as)", OF _ assms])
  fix f :: "(addr \<Rightarrow> Node) \<Rightarrow> addr option \<Rightarrow> string \<Rightarrow> (error + string) option"
  fix h node ll_string y
  assume IH: "\<And>h' node' acc' y'. f h' node' acc' = Some y' \<Longrightarrow>
                (\<exists>out. y' = Inr out) \<longrightarrow> (\<exists>as. chain h' node' as)"
  assume step: "(case node of None \<Rightarrow> Some (Inr ll_string)
      | Some a \<Rightarrow>
          (case py_str (data (h a)) of
             Inl e \<Rightarrow> Some (Inl e)
           | Inr t \<Rightarrow> f h (next_node (h a)) (ll_string @ t @ '' => ''))) = Some y"
  show "(\<exists>out. y = Inr out) \<longrightarrow> (\<exists>as. chain h node as)"
  proof
    assume ret: "\<exists>out. y = Inr out"
    show "\<exists>as. chain h node as"
    proof (cases node)
      case None
      then have "chain h node []" by simp
      then show ?thesis ..
    next
      case (Some a)
      with step ret obtain t where "f h (next_node (h a)) (ll_string @ t @ '' => '') = Some y"
        by (auto split: sum.splits)
      with ret obtain as where "chain h (next_node (h a)) as" using IH by blast
      with Some have "chain h node (a # as)" by simp
      then show ?thesis ..
    qed
  qed
qed

text \<open>A loop that raises has met a datum whose \<open>str\<close> raises.\<close>

lemma while_loop_raises:
  assumes "while_loop h p acc = Some r"
  shows "(\<exists>e. r = Inl e) \<longrightarrow> (\<exists>a e. py_str (data (h a)) = Inl e)"
proof (rule while_loop.raw_induct
    [where P = "\<lambda>h p acc r. (\<exists>e. r = Inl e) \<longrightarrow> (\<exists>a e. py_str (data (h a)) = Inl e)", OF _ assms])
  fix f :: "(addr \<Rightarrow> Node) \<Rightarrow> addr option \<Rightarrow> string \<Rightarrow> (error + string) option"
  fix h node ll_string y
  assume IH: "\<And>h' node' acc' y'. f h' node' acc' = Some y' \<Longrightarrow>
                (\<exists>e. y' = Inl e) \<longrightarrow> (\<exists>a e. py_str (data (h' a)) = Inl e)"
  assume step: "(case node of None \<Rightarrow> Some (Inr ll_string)
      | Some a \<Rightarrow>
          (case py_str (data (h a)) of
             Inl e \<Rightarrow> Some (Inl e)
           | Inr t \<Rightarrow> f h (next_node (h a)) (ll_string @ t @ '' => ''))) = Some y"
  show "(\<exists>e. y = Inl e) \<longrightarrow> (\<exists>a e. py_str (data (h a)) = Inl e)"
  proof
    assume err: "\<exists>e. y = Inl e"
    show "\<exists>a e. py_str (data (h a)) = Inl e"
    proof (cases node)
      case None
      with step err show ?thesis by auto
    next
      case (Some a)
      show ?thesis
      proof (cases "py_str (data (h a))")
        case (Inl e)
        then show ?thesis by blast
      next
        case (Inr t)
        with step Some have "f h (next_node (h a)) (ll_string @ t @ '' => '') = Some y" by simp
        with err show ?thesis using IH by blast
      qed
    qed
  qed
qed

section \<open>Chains are unique and do not repeat a node\<close>

lemma chain_unique: "chain h p as \<Longrightarrow> chain h p bs \<Longrightarrow> as = bs"
proof (induction as arbitrary: p bs)
  case Nil
  then show ?case by (cases bs) auto
next
  case (Cons a as)
  then show ?case by (cases bs) auto
qed

lemma chain_suffix: "chain h p (as @ b # bs) \<Longrightarrow> chain h (Some b) (b # bs)"
  by (induction as arbitrary: p) auto

lemma chain_distinct: "chain h p as \<Longrightarrow> distinct as"
proof (induction as arbitrary: p)
  case Nil
  then show ?case by simp
next
  case (Cons a as)
  from Cons.prems have rest: "chain h (next_node (h a)) as" by simp
  have "a \<notin> set as"
  proof
    assume "a \<in> set as"
    then obtain us vs where split: "as = us @ a # vs"
      by (auto simp: in_set_conv_decomp)
    from Cons.prems have whole: "chain h (Some a) (a # as)" by simp
    from rest split have "chain h (next_node (h a)) (us @ a # vs)" by simp
    then have "chain h (Some a) (a # vs)" by (rule chain_suffix)
    with whole have "a # as = a # vs" by (rule chain_unique)
    with split show False by simp
  qed
  moreover from rest have "distinct as" by (rule Cons.IH)
  ultimately show ?case by simp
qed

lemma self_loop_no_chain: "next_node (h a) = Some a \<Longrightarrow> \<not> chain h (Some a) as"
  by (induction as) auto

section \<open>\<open>print_LL\<close> on a chain\<close>

lemma tokens_Inl_nonempty: "tokens h as = Inl e \<Longrightarrow> as \<noteq> []"
  by (cases as) auto

lemma print_LL_chain:
  assumes "chain (nodes s) (head (ll s)) as"
  shows "print_LL s =
         Some (case tokens (nodes s) as of
                 Inl e \<Rightarrow> Inl (e, s)
               | Inr ts \<Rightarrow>
                   Inr (PyNone, s\<lparr>stdout := stdout s @ (if as = [] then [''None''] else []) @
                                                     [rendered ts]\<rparr>))"
proof -
  have empty: "(head (ll s) = None) = (as = [])"
    using assms by (cases as) auto
  show ?thesis
  proof (cases "tokens (nodes s) as")
    case (Inl e)
    then have "as \<noteq> []" by (rule tokens_Inl_nonempty)
    with empty obtain a where "head (ll s) = Some a" by auto
    with chain_while_loop [OF assms, of "''''"] Inl show ?thesis
      by (auto simp: print_LL_def Let_def)
  next
    case (Inr ts)
    then show ?thesis
      using chain_while_loop [OF assms, of "''''"]
      by (simp add: print_LL_def Let_def empty py_print_def rendered_concat)
  qed
qed

lemma print_LL_returns_chain:
  assumes "print_LL s = Some (Inr x)"
  shows "\<exists>as. chain (nodes s) (head (ll s)) as"
proof -
  from assms obtain out where "while_loop (nodes s) (head (ll s)) '''' = Some (Inr out)"
    by (auto simp: print_LL_def Let_def split: option.splits sum.splits)
  from while_loop_chain [OF this] show ?thesis by blast
qed

lemma print_LL_raises_datum:
  assumes "print_LL s = Some (Inl x)"
  shows "\<exists>a e. py_str (data (nodes s a)) = Inl e"
proof -
  from assms obtain e where "while_loop (nodes s) (head (ll s)) '''' = Some (Inl e)"
    by (auto simp: print_LL_def Let_def split: option.splits sum.splits)
  from while_loop_raises [OF this] show ?thesis by blast
qed

lemma print_LL_frame:
  "print_LL s = Some (Inr (r, s')) \<Longrightarrow> r = PyNone \<and> ll s' = ll s \<and> nodes s' = nodes s"
  by (auto simp: print_LL_def Let_def py_print_def split: option.splits sum.splits if_splits)

lemma print_LL_raises_frame:
  "print_LL s = Some (Inl (e, s')) \<Longrightarrow> s' = s"
  by (auto simp: print_LL_def Let_def while_loop_None split: option.splits sum.splits if_splits)

lemmas eval_defs =
  print_LL_def LinkedList_init_def Node_init_def py_print_def Let_def
  while_loop_None while_loop_Some blank_nodes_def int_max_str_digits_def
  str_nat.simps digit_def

section \<open>The string forms along a chain\<close>

lemma tokens_Inr_map:
  "tokens h as = Inr ts \<Longrightarrow> map (\<lambda>a. py_str (data (h a))) as = map Inr ts"
  by (induction as arbitrary: ts) (auto split: sum.splits)

lemma big_one_tokens: "tokens (nodes big_one_state) [1] = Inl ValueError"
  by (simp add: big_one_state_def Node_init_def py_str_big_int del: py_str.simps(3))

lemma late_big_tokens: "tokens (nodes late_big_state) [2, 6] = Inl ValueError"
  by (simp add: late_big_state_def Node_init_def py_str_big_int del: py_str.simps(3))

lemma early_big_tokens: "tokens (nodes early_big_state) [1, 2] = Inl ValueError"
  by (simp add: early_big_state_def Node_init_def py_str_big_int del: py_str.simps(3))

lemma three_tokens: "tokens (nodes three_state) [5, 3, 9] = Inr [''7'', ''True'', ''c'']"
  by (simp add: three_state_def eval_defs)

section \<open>The claims\<close>

text \<open>
  C1, as amended. When the chain from the head holds the nodes at the addresses \<open>as\<close>,
  is not empty, and \<open>str\<close> returns on the data of all of them, with the strings \<open>ts\<close>,
  \<open>print_LL\<close> returns and writes exactly one line: the strings \<open>ts\<close>, one for each node
  in chain order, each followed by \<open>" => "\<close>, and then \<open>"None"\<close>.
\<close>
theorem print_LL_nonempty:
  assumes "chain (nodes s) (head (ll s)) as" and "as \<noteq> []" and "tokens (nodes s) as = Inr ts"
  shows "print_LL s = Some (Inr (PyNone, s\<lparr>stdout := stdout s @ [rendered ts]\<rparr>)) \<and>
         map (\<lambda>a. py_str (data (nodes s a))) as = map Inr ts"
  using print_LL_chain [OF assms(1)] assms(2) assms(3) tokens_Inr_map [OF assms(3)] by simp

theorem print_LL_nonempty_witness:
  "chain (nodes three_state) (head (ll three_state)) [5, 3, 9] \<and> [5, 3, 9] \<noteq> ([] :: addr list) \<and>
   tokens (nodes three_state) [5, 3, 9] = Inr [''7'', ''True'', ''c''] \<and>
   print_LL three_state =
     Some (Inr (PyNone, three_state\<lparr>stdout := [''earlier'', ''7 => True => c => None'']\<rparr>))"
proof -
  have c: "chain (nodes three_state) (head (ll three_state)) [5, 3, 9]"
    by (simp add: three_state_def Node_init_def)
  have n: "[5, 3, 9] \<noteq> ([] :: addr list)" by simp
  have "stdout three_state = [''earlier'']" by (simp add: three_state_def)
  then show ?thesis using print_LL_nonempty [OF c n three_tokens] c three_tokens by simp
qed

text \<open>
  Without the condition on \<open>str\<close> the statement fails: on the chain of \<open>"p"\<close> and
  \<open>10**4300\<close> the call raises \<open>ValueError\<close> and writes no line.
\<close>

theorem print_LL_nonempty_counterexample:
  "chain (nodes late_big_state) (head (ll late_big_state)) [2, 6] \<and>
   [2, 6] \<noteq> ([] :: addr list) \<and>
   print_LL late_big_state = Some (Inl (ValueError, late_big_state))"
proof -
  have c: "chain (nodes late_big_state) (head (ll late_big_state)) [2, 6]"
    by (simp add: late_big_state_def Node_init_def)
  from print_LL_chain [OF c] late_big_tokens c show ?thesis by simp
qed

text \<open>
  C2. When the head is \<open>None\<close>, \<open>print_LL\<close> writes the line \<open>None\<close> and then the line
  \<open>None\<close> of the empty rendering, which holds no \<open>" => "\<close>.
\<close>
theorem print_LL_empty:
  assumes "head (ll s) = None"
  shows "print_LL s = Some (Inr (PyNone, s\<lparr>stdout := stdout s @ [''None'', ''None'']\<rparr>))"
  using assms by (simp add: print_LL_def Let_def while_loop_None py_print_def)

theorem print_LL_empty_witness:
  "head (ll empty_state) = None \<and>
   print_LL empty_state = Some (Inr (PyNone, empty_state\<lparr>stdout := [''earlier'', ''None'', ''None'']\<rparr>))"
proof -
  have h: "head (ll empty_state) = None" by (simp add: empty_state_def)
  have "stdout empty_state = [''earlier'']" by (simp add: empty_state_def)
  with print_LL_empty [OF h] h show ?thesis by simp
qed

text \<open>
  C3, as amended. When the chain from the head is finite and \<open>str\<close> returns on the data
  of all its nodes, \<open>print_LL\<close> returns; the chain repeats no node; the loop ends after as
  many executions of its body as the chain has nodes, and after no fewer. When
  \<open>print_LL\<close> does not end, the head has no finite chain.
\<close>
theorem print_LL_terminates:
  "(chain (nodes s) (head (ll s)) as \<and> tokens (nodes s) as = Inr ts \<longrightarrow>
      (\<exists>s'. print_LL s = Some (Inr (PyNone, s'))) \<and>
      distinct as \<and>
      (\<exists>out. while_loop (nodes s) (head (ll s)) '''' = Some (Inr out) \<and>
             while_fuel (length as) (nodes s) (head (ll s)) '''' = Some (Inr out)) \<and>
      (\<forall>k < length as. while_fuel k (nodes s) (head (ll s)) '''' = None)) \<and>
   (print_LL s = None \<longrightarrow> (\<nexists>bs. chain (nodes s) (head (ll s)) bs))"
proof (intro conjI impI)
  assume "chain (nodes s) (head (ll s)) as \<and> tokens (nodes s) as = Inr ts"
  then have c: "chain (nodes s) (head (ll s)) as" and t: "tokens (nodes s) as = Inr ts"
    by simp_all
  show "\<exists>s'. print_LL s = Some (Inr (PyNone, s'))"
    using print_LL_chain [OF c] t by simp
  show "distinct as" using c by (rule chain_distinct)
  show "\<exists>out. while_loop (nodes s) (head (ll s)) '''' = Some (Inr out) \<and>
             while_fuel (length as) (nodes s) (head (ll s)) '''' = Some (Inr out)"
    using chain_while_loop [OF c, of "''''"] chain_while_fuel [OF c, of "''''"] t by simp
  show "\<forall>k < length as. while_fuel k (nodes s) (head (ll s)) '''' = None"
    using chain_while_fuel_less [OF c t] by blast
next
  assume "print_LL s = None"
  then show "\<nexists>bs. chain (nodes s) (head (ll s)) bs"
    using print_LL_chain by fastforce
qed

theorem print_LL_terminates_witness:
  "chain (nodes three_state) (head (ll three_state)) [5, 3, 9] \<and>
   tokens (nodes three_state) [5, 3, 9] = Inr [''7'', ''True'', ''c''] \<and>
   print_LL three_state =
     Some (Inr (PyNone, three_state\<lparr>stdout := [''earlier'', ''7 => True => c => None'']\<rparr>)) \<and>
   distinct [5, 3, 9 :: addr] \<and>
   while_fuel 3 (nodes three_state) (head (ll three_state)) '''' = Some (Inr ''7 => True => c => '') \<and>
   while_fuel 2 (nodes three_state) (head (ll three_state)) '''' = None \<and>
   print_LL cyclic_state = None \<and>
   (\<nexists>bs. chain (nodes cyclic_state) (head (ll cyclic_state)) bs)"
proof -
  have c: "chain (nodes three_state) (head (ll three_state)) [5, 3, 9]"
    by (simp add: three_state_def Node_init_def)
  have run: "print_LL three_state =
      Some (Inr (PyNone, three_state\<lparr>stdout := [''earlier'', ''7 => True => c => None'']\<rparr>))"
    by (simp add: three_state_def eval_defs)
  have f3: "while_fuel 3 (nodes three_state) (head (ll three_state)) '''' = Some (Inr ''7 => True => c => '')"
    by (simp add: three_state_def eval_defs numeral_3_eq_3)
  have no: "\<nexists>bs. chain (nodes cyclic_state) (head (ll cyclic_state)) bs"
    using self_loop_no_chain [of "nodes cyclic_state" 1]
    by (simp add: cyclic_state_def Node_init_def)
  have ok: "\<nexists>a e. py_str (data (nodes cyclic_state a)) = Inl e"
    by (simp add: cyclic_state_def blank_nodes_def Node_init_def)
  have div: "print_LL cyclic_state = None"
  proof (cases "print_LL cyclic_state")
    case None
    then show ?thesis .
  next
    case (Some x)
    show ?thesis
    proof (cases x)
      case (Inl y)
      with Some have "\<exists>a e. py_str (data (nodes cyclic_state a)) = Inl e"
        by (simp add: print_LL_raises_datum)
      with ok show ?thesis by blast
    next
      case (Inr y)
      with Some have "\<exists>bs. chain (nodes cyclic_state) (head (ll cyclic_state)) bs"
        by (simp add: print_LL_returns_chain)
      with no show ?thesis by blast
    qed
  qed
  from print_LL_terminates [of three_state "[5, 3, 9]" "[''7'', ''True'', ''c'']"] c three_tokens
  have "distinct [5, 3, 9 :: addr]"
    and "\<forall>k < length [5, 3, 9 :: addr]. while_fuel k (nodes three_state) (head (ll three_state)) '''' = None"
    by blast+
  then have "while_fuel 2 (nodes three_state) (head (ll three_state)) '''' = None"
    by simp
  moreover from print_LL_terminates [of cyclic_state] div
  have "\<nexists>bs. chain (nodes cyclic_state) (head (ll cyclic_state)) bs" by blast
  ultimately show ?thesis using c three_tokens run f3 div by simp
qed

text \<open>
  Without the condition on \<open>str\<close> the statement fails: on the chain of \<open>10**4300\<close> and
  \<open>"z"\<close> the call raises \<open>ValueError\<close> in the first execution of the loop body, and the
  second node is never visited.
\<close>

theorem print_LL_terminates_counterexample:
  "chain (nodes early_big_state) (head (ll early_big_state)) [1, 2] \<and>
   print_LL early_big_state = Some (Inl (ValueError, early_big_state)) \<and>
   while_fuel 1 (nodes early_big_state) (head (ll early_big_state)) '''' = Some (Inl ValueError)"
proof -
  have c: "chain (nodes early_big_state) (head (ll early_big_state)) [1, 2]"
    by (simp add: early_big_state_def Node_init_def)
  have "while_fuel 1 (nodes early_big_state) (head (ll early_big_state)) '''' = Some (Inl ValueError)"
    by (simp add: early_big_state_def Node_init_def py_str_big_int del: py_str.simps(3))
  with print_LL_chain [OF c] early_big_tokens c show ?thesis by simp
qed

text \<open>
  C4. On a finite chain, when \<open>str\<close> returns on all the data, two calls of \<open>print_LL\<close> in
  a row both return and write the same lines, and neither changes the list object or
  the store of nodes. When \<open>str\<close> raises on a datum, the call raises and leaves the whole
  state as it was, standard output included, so that a second call is the same call
  again: both write nothing.
\<close>
theorem print_LL_twice:
  assumes "chain (nodes s) (head (ll s)) as"
  shows "(\<forall>ts. tokens (nodes s) as = Inr ts \<longrightarrow>
            (\<exists>out s1 s2.
               print_LL s = Some (Inr (PyNone, s1)) \<and> stdout s1 = stdout s @ out \<and>
               print_LL s1 = Some (Inr (PyNone, s2)) \<and> stdout s2 = stdout s1 @ out \<and>
               ll s1 = ll s \<and> nodes s1 = nodes s \<and> ll s2 = ll s \<and> nodes s2 = nodes s)) \<and>
         (\<forall>e. tokens (nodes s) as = Inl e \<longrightarrow> print_LL s = Some (Inl (e, s)))"
proof (intro conjI allI impI)
  fix ts
  assume t: "tokens (nodes s) as = Inr ts"
  let ?out = "(if as = [] then [''None''] else []) @ [rendered ts]"
  let ?s1 = "s\<lparr>stdout := stdout s @ ?out\<rparr>"
  let ?s2 = "?s1\<lparr>stdout := stdout ?s1 @ ?out\<rparr>"
  have first: "print_LL s = Some (Inr (PyNone, ?s1))"
    using print_LL_chain [OF assms] t by simp
  have c1: "chain (nodes ?s1) (head (ll ?s1)) as" using assms by simp
  have t1: "tokens (nodes ?s1) as = Inr ts" using t by simp
  from print_LL_chain [OF c1] t1 have second: "print_LL ?s1 = Some (Inr (PyNone, ?s2))" by simp
  have "stdout ?s1 = stdout s @ ?out" by simp
  moreover have "stdout ?s2 = stdout ?s1 @ ?out" by simp
  moreover have "ll ?s1 = ll s \<and> nodes ?s1 = nodes s \<and> ll ?s2 = ll s \<and> nodes ?s2 = nodes s" by simp
  ultimately show "\<exists>out s1 s2.
      print_LL s = Some (Inr (PyNone, s1)) \<and> stdout s1 = stdout s @ out \<and>
      print_LL s1 = Some (Inr (PyNone, s2)) \<and> stdout s2 = stdout s1 @ out \<and>
      ll s1 = ll s \<and> nodes s1 = nodes s \<and> ll s2 = ll s \<and> nodes s2 = nodes s"
    using first second by blast
next
  fix e
  assume "tokens (nodes s) as = Inl e"
  with print_LL_chain [OF assms] show "print_LL s = Some (Inl (e, s))" by simp
qed

theorem print_LL_twice_witness:
  "chain (nodes one_state) (head (ll one_state)) [4] \<and>
   tokens (nodes one_state) [4] = Inr [''x''] \<and>
   (\<exists>out s1 s2.
      print_LL one_state = Some (Inr (PyNone, s1)) \<and> stdout s1 = stdout one_state @ out \<and>
      print_LL s1 = Some (Inr (PyNone, s2)) \<and> stdout s2 = stdout s1 @ out \<and>
      ll s1 = ll one_state \<and> nodes s1 = nodes one_state \<and>
      ll s2 = ll one_state \<and> nodes s2 = nodes one_state) \<and>
   chain (nodes big_one_state) (head (ll big_one_state)) [1] \<and>
   tokens (nodes big_one_state) [1] = Inl ValueError \<and>
   print_LL big_one_state = Some (Inl (ValueError, big_one_state))"
proof -
  have c: "chain (nodes one_state) (head (ll one_state)) [4]"
    by (simp add: one_state_def Node_init_def)
  have t: "tokens (nodes one_state) [4] = Inr [''x'']"
    by (simp add: one_state_def Node_init_def)
  have cb: "chain (nodes big_one_state) (head (ll big_one_state)) [1]"
    by (simp add: big_one_state_def Node_init_def)
  from print_LL_twice [OF c] t print_LL_twice [OF cb] big_one_tokens c cb
  show ?thesis by blast
qed

text \<open>
  C5. In every state reached by constructing the list and then constructing nodes,
  assigning the head and calling \<open>print_LL\<close>, the attribute \<open>last_node\<close> is \<open>None\<close>.
\<close>
theorem last_node_never_set:
  assumes "reachable s"
  shows "last_node (ll s) = None"
  using assms
proof (induction rule: reachable.induct)
  case (construct s r s')
  then show ?case by (auto simp: LinkedList_init_def)
next
  case (new_node s a d n)
  then show ?case by simp
next
  case (set_head s p)
  then show ?case by simp
next
  case (render s r s')
  from print_LL_frame [OF render.hyps(2)] render.IH show ?case by simp
next
  case (render_raises s e s')
  from print_LL_raises_frame [OF render_raises.hyps(2)] render_raises.IH show ?case by simp
qed

theorem last_node_never_set_witness:
  "reachable one_state \<and> last_node (ll one_state) = None"
proof -
  let ?s0 = "\<lparr>ll = \<lparr>head = Some 8, last_node = Some 8\<rparr>, nodes = blank_nodes, stdout = []\<rparr>"
  let ?s1 = "\<lparr>ll = \<lparr>head = None, last_node = None\<rparr>, nodes = blank_nodes, stdout = []\<rparr>"
  have "LinkedList_init ?s0 = Some (PyNone, ?s1)" by (simp add: LinkedList_init_def)
  then have "reachable ?s1" by (rule reachable.construct)
  from reachable.new_node [OF this, of 4 "Some (PyStr ''x'')" None]
  have "reachable \<lparr>ll = \<lparr>head = None, last_node = None\<rparr>,
                    nodes = blank_nodes(4 := Node_init (Some (PyStr ''x'')) None), stdout = []\<rparr>"
    by simp
  from reachable.set_head [OF this, of "Some 4"]
  have r: "reachable one_state" by (simp add: one_state_def)
  from last_node_never_set [OF r] r show ?thesis by simp
qed

text \<open>
  C6, as amended. For a list of one node holding \<open>d\<close> on which \<open>str\<close> returns,
  \<open>print_LL\<close> writes the single line \<open>str(d)\<close> followed by \<open>" => None"\<close>: the only
  separator stands after the element.
\<close>
theorem print_LL_single:
  assumes "head (ll s) = Some a" and "next_node (nodes s a) = None"
    and "py_str (data (nodes s a)) = Inr t"
  shows "print_LL s = Some (Inr (PyNone, s\<lparr>stdout := stdout s @ [t @ '' => None'']\<rparr>))"
  using assms by (simp add: print_LL_def Let_def while_loop_None while_loop_Some py_print_def)

theorem print_LL_single_witness:
  "head (ll one_state) = Some 4 \<and> next_node (nodes one_state 4) = None \<and>
   py_str (data (nodes one_state 4)) = Inr ''x'' \<and>
   print_LL one_state = Some (Inr (PyNone, one_state\<lparr>stdout := [''x => None'']\<rparr>))"
proof -
  have h: "head (ll one_state) = Some 4" by (simp add: one_state_def)
  have n: "next_node (nodes one_state 4) = None" by (simp add: one_state_def Node_init_def)
  have t: "py_str (data (nodes one_state 4)) = Inr ''x''" by (simp add: one_state_def Node_init_def)
  have "stdout one_state = []" by (simp add: one_state_def)
  then show ?thesis using print_LL_single [OF h n t] h n t by simp
qed

text \<open>
  Without the condition on \<open>str\<close> the statement fails: for the one node \<open>Node(10**4300)\<close>
  the call raises \<open>ValueError\<close> and writes no line.
\<close>

theorem print_LL_single_counterexample:
  "head (ll big_one_state) = Some 1 \<and> next_node (nodes big_one_state 1) = None \<and>
   data (nodes big_one_state 1) = PyInt big_int \<and>
   print_LL big_one_state = Some (Inl (ValueError, big_one_state))"
proof -
  have c: "chain (nodes big_one_state) (head (ll big_one_state)) [1]"
    by (simp add: big_one_state_def Node_init_def)
  have "head (ll big_one_state) = Some 1 \<and> next_node (nodes big_one_state 1) = None \<and>
        data (nodes big_one_state 1) = PyInt big_int"
    by (simp add: big_one_state_def Node_init_def)
  with print_LL_chain [OF c] big_one_tokens show ?thesis by simp
qed

text \<open>
  C7. The module's own statements, run from any state, end with the list of the two
  nodes \<open>"fir"\<close> and \<open>"2"\<close> and write the one line \<open>fir => 2 => None\<close>.
\<close>
theorem module_main_output:
  "module_main s =
   Some (Inr (PyNone,
     \<lparr>ll = \<lparr>head = Some 1, last_node = None\<rparr>,
      nodes = (nodes s)(2 := \<lparr>data = PyStr ''2'', next_node = None\<rparr>,
                        1 := \<lparr>data = PyStr ''fir'', next_node = Some 2\<rparr>),
      stdout = stdout s @ [''fir => 2 => None'']\<rparr>))"
  by (simp add: module_main_def eval_defs)

text \<open>
  C8. \<open>LinkedList.__init__\<close> returns in every state, and leaves a list whose \<open>head\<close> and
  \<open>last_node\<close> are both \<open>None\<close>; the nodes and standard output are untouched.
\<close>
theorem LinkedList_init_empty:
  "\<exists>s'. LinkedList_init s = Some (PyNone, s') \<and>
        head (ll s') = None \<and> last_node (ll s') = None \<and>
        nodes s' = nodes s \<and> stdout s' = stdout s"
  by (simp add: LinkedList_init_def)



text \<open>
  C10. \<open>Node()\<close> has \<open>data = None\<close> and \<open>next_node = None\<close>; the string form of its data is
  \<open>"None"\<close>, the very text \<open>print_LL\<close> appends for the end of the chain; and a list of this
  one node is written as \<open>None => None\<close>.
\<close>
theorem Node_default_renders_None:
  "Node_init None None = \<lparr>data = PyNone, next_node = None\<rparr> \<and>
   py_str (data (Node_init None None)) = Inr ''None'' \<and>
   (head (ll s) = Some a \<and> nodes s a = Node_init None None \<longrightarrow>
      print_LL s = Some (Inr (PyNone, s\<lparr>stdout := stdout s @ [''None => None'']\<rparr>)))"
  by (simp add: eval_defs)

theorem Node_default_renders_None_witness:
  "head (ll \<lparr>ll = \<lparr>head = Some 6, last_node = None\<rparr>, nodes = blank_nodes, stdout = []\<rparr>) = Some 6 \<and>
   nodes \<lparr>ll = \<lparr>head = Some 6, last_node = None\<rparr>, nodes = blank_nodes, stdout = []\<rparr> 6 = Node_init None None \<and>
   print_LL \<lparr>ll = \<lparr>head = Some 6, last_node = None\<rparr>, nodes = blank_nodes, stdout = []\<rparr> =
     Some (Inr (PyNone, \<lparr>ll = \<lparr>head = Some 6, last_node = None\<rparr>, nodes = blank_nodes, stdout = [''None => None'']\<rparr>))"
proof -
  let ?s = "\<lparr>ll = \<lparr>head = Some 6, last_node = None\<rparr>, nodes = blank_nodes, stdout = []\<rparr>"
  have h: "head (ll ?s) = Some 6" by simp
  have n: "nodes ?s 6 = Node_init None None" by (simp add: blank_nodes_def)
  have u: "?s\<lparr>stdout := stdout ?s @ [''None => None'']\<rparr> =
           \<lparr>ll = \<lparr>head = Some 6, last_node = None\<rparr>, nodes = blank_nodes, stdout = [''None => None'']\<rparr>"
    by simp
  from Node_default_renders_None [of ?s 6] h n
  have "print_LL ?s = Some (Inr (PyNone, ?s\<lparr>stdout := stdout ?s @ [''None => None'']\<rparr>))" by blast
  with h n u show ?thesis by (simp only:)
qed

end
